theory Spec2Isabelle
  imports Complex_Main
begin

section \<open>Python strings\<close>

text \<open>
  The labels handled by the benchmark are Python \<open>str\<close> values. They are modelled as
  \<^typ>\<open>string\<close>, one \<^typ>\<open>char\<close> per code point, which covers the code points
  0 to 255 (Latin-1). On this range \<open>str.lower\<close> acts on each character alone and
  \<open>str.strip\<close> removes the characters for which \<open>str.isspace\<close> holds.
\<close>

definition isspace :: "char \<Rightarrow> bool" where
  "isspace c =
     (let n = (of_char c :: nat)
      in (9 \<le> n \<and> n \<le> 13) \<or> (28 \<le> n \<and> n \<le> 32) \<or> n = 133 \<or> n = 160)"

definition lower_char :: "char \<Rightarrow> char" where
  "lower_char c =
     (let n = (of_char c :: nat)
      in if (65 \<le> n \<and> n \<le> 90) \<or> (192 \<le> n \<and> n \<le> 222 \<and> n \<noteq> 215)
         then char_of (n + 32) else c)"

definition lower :: "string \<Rightarrow> string" where
  "lower s = map lower_char s"

definition lstrip :: "string \<Rightarrow> string" where
  "lstrip s = dropWhile isspace s"

definition rstrip :: "string \<Rightarrow> string" where
  "rstrip s = rev (dropWhile isspace (rev s))"

definition strip :: "string \<Rightarrow> string" where
  "strip s = rstrip (lstrip s)"

section \<open>Label normalizers\<close>

text \<open>
  \<open>normalize_label\<close> of \<open>benchmark.py\<close>. The argument is \<open>None\<close> or a string.
\<close>

definition normalize_label :: "string option \<Rightarrow> string" where
  "normalize_label raw_label =
     (case raw_label of
        None \<Rightarrow> ''unknown''
      | Some s \<Rightarrow>
          (let t = lower (strip s)
           in if t \<in> {''positive'', ''pos'', ''label_1'', ''1''} then ''positive''
              else if t \<in> {''negative'', ''neg'', ''label_0'', ''0''} then ''negative''
              else if t \<in> {''neutral''} then ''negative''
              else t))"

text \<open>
  \<open>_normalize\<close> of \<open>benchmark_ui.py\<close>; \<open>label or ""\<close> replaces \<open>None\<close> (and the
  empty string) by the empty string.
\<close>

definition ui_normalize :: "string option \<Rightarrow> string" where
  "ui_normalize label =
     (let t = lower (strip (case label of None \<Rightarrow> [] | Some s \<Rightarrow> s))
      in if t \<in> {''positive'', ''pos'', ''label_1'', ''1''} then ''positive''
         else if t \<in> {''negative'', ''neg'', ''label_0'', ''0''} then ''negative''
         else ''negative'')"

section \<open>Configuration of the benchmark\<close>

definition MODELS :: "(string \<times> string) list" where
  "MODELS =
     [(''distilbert-base-uncased-finetuned-sst-2-english'', ''DistilBERT SST-2 (HF)''),
      (''textattack/distilbert-base-uncased-SST-2'', ''TextAttack DistilBERT SST-2''),
      (''textattack/albert-base-v2-SST-2'', ''TextAttack ALBERT v2 SST-2'')]"

definition SAMPLES :: "(string \<times> string) list" where
  "SAMPLES =
     [(''I absolutely love this!'', ''positive''),
      (''This is the best thing ever.'', ''positive''),
      (''Not bad at all, pretty good.'', ''positive''),
      (''I hated the experience.'', ''negative''),
      (''This is terrible and disappointing.'', ''negative''),
      (''I wouldn't recommend it.'', ''negative''),
      (''It's okay, nothing special.'', ''negative''),
      (''I am pleasantly surprised.'', ''positive'')]"

definition RUNS_PER_SAMPLE :: nat where
  "RUNS_PER_SAMPLE = 3"

section \<open>Errors and the statistics functions\<close>

text \<open>
  Every exception the benchmark can meet is a subclass of Python's \<open>Exception\<close>:
  the ones raised by the standard library on an empty sequence or a zero divisor, the
  one raised by reading a local variable that was never assigned, and whatever the
  classifier library raises (\<open>Raised\<close>, with its message).
\<close>

datatype error =
    StatisticsError
  | ValueError
  | ZeroDivisionError
  | UnboundLocalError
  | Raised string

text \<open>
  Durations are Python floats; they are modelled as real numbers. \<open>mean\<close> and
  \<open>median\<close> are the functions of Python's \<open>statistics\<close> module, \<open>py_min\<close> and
  \<open>py_max\<close> the builtins \<open>min\<close> and \<open>max\<close>; all four raise on an empty sequence.
\<close>

definition mean :: "real list \<Rightarrow> error + real" where
  "mean xs = (if xs = [] then Inl StatisticsError else Inr (sum_list xs / real (length xs)))"

definition py_min :: "real list \<Rightarrow> error + real" where
  "py_min xs = (case xs of [] \<Rightarrow> Inl ValueError | x # rest \<Rightarrow> Inr (fold min rest x))"

definition py_max :: "real list \<Rightarrow> error + real" where
  "py_max xs = (case xs of [] \<Rightarrow> Inl ValueError | x # rest \<Rightarrow> Inr (fold max rest x))"

definition median :: "real list \<Rightarrow> error + real" where
  "median xs =
     (let data = sort xs; n = length data
      in if n = 0 then Inl StatisticsError
         else if n mod 2 = 1 then Inr (data ! (n div 2))
         else (let i = n div 2 in Inr ((data ! (i - 1) + data ! i) / 2)))"

text \<open>
  \<open>p95\<close> of \<open>benchmark.py\<close>. \<open>int\<close> truncates the non-negative product
  \<open>0.95 * (len(vals) - 1)\<close>, which is its floor.
\<close>

definition p95 :: "real list \<Rightarrow> real" where
  "p95 vs =
     (if vs = [] then 0
      else (let vals = sort vs;
                idx = nat \<lfloor>0.95 * real (length vals - 1)\<rfloor>
            in vals ! idx))"

section \<open>The classifier library and the clock\<close>

text \<open>
  The classifier library and the clock are outside the repository. They act on a world
  \<open>'w\<close> that the benchmark threads through its calls: \<open>pipeline\<close> builds the classifier
  of a model or raises, \<open>classify\<close> is one inference call \<open>clf(text)[0]\<close>, which returns
  a label and a score or raises, and \<open>perf_counter\<close> reads the clock.
\<close>

record raw_prediction =
  label :: "string option"
  score :: real

record ('w, 'clf) env =
  pipeline :: "string \<Rightarrow> 'w \<Rightarrow> (error + 'clf) \<times> 'w"
  classify :: "'clf \<Rightarrow> string \<Rightarrow> 'w \<Rightarrow> (error + raw_prediction) \<times> 'w"
  perf_counter :: "'w \<Rightarrow> real \<times> 'w"

section \<open>Evaluating one model\<close>

record model_result =
  avg_ms :: real
  min_ms :: real
  max_ms :: real
  med_ms :: real
  p95_ms :: real
  acc :: real
  preds :: "(string \<times> string \<times> string \<times> real) list"
  num_samples :: nat
  runs_per_sample :: nat

text \<open>
  The inner loop of \<open>run_one\<close>: \<open>n\<close> timed calls on one text. It appends one duration
  per call to \<open>latencies_ms\<close> and assigns the local variable \<open>out\<close>, which is
  \<open>None\<close> as long as no call has assigned it.
\<close>

fun timed_calls ::
  "('w, 'clf) env \<Rightarrow> 'clf \<Rightarrow> string \<Rightarrow> nat \<Rightarrow> real list \<times> raw_prediction option \<Rightarrow> 'w
     \<Rightarrow> (error + real list \<times> raw_prediction option) \<times> 'w" where
  "timed_calls E clf text 0 (latencies_ms, out) w = (Inr (latencies_ms, out), w)"
| "timed_calls E clf text (Suc n) (latencies_ms, out) w =
     (case perf_counter E w of (t0, w1) \<Rightarrow>
      (case classify E clf text w1 of
         (Inl e, w2) \<Rightarrow> (Inl e, w2)
       | (Inr r, w2) \<Rightarrow>
          (case perf_counter E w2 of (t1, w3) \<Rightarrow>
             timed_calls E clf text n (latencies_ms @ [(t1 - t0) * 1000], Some r) w3)))"

text \<open>
  The loop over the samples. Its state is \<open>latencies_ms\<close>, \<open>correct\<close>, \<open>preds\<close> and
  the variable \<open>out\<close>, which stays assigned from one sample to the next.
\<close>

fun sample_loop ::
  "('w, 'clf) env \<Rightarrow> 'clf \<Rightarrow> nat \<Rightarrow> (string \<times> string) list
     \<Rightarrow> real list \<times> nat \<times> (string \<times> string \<times> string \<times> real) list \<times> raw_prediction option \<Rightarrow> 'w
     \<Rightarrow> (error + real list \<times> nat \<times> (string \<times> string \<times> string \<times> real) list
           \<times> raw_prediction option) \<times> 'w" where
  "sample_loop E clf runs [] st w = (Inr st, w)"
| "sample_loop E clf runs ((text, expected) # rest) (latencies_ms, correct, ps, out) w =
     (case timed_calls E clf text runs (latencies_ms, out) w of
        (Inl e, w1) \<Rightarrow> (Inl e, w1)
      | (Inr (latencies_ms1, out1), w1) \<Rightarrow>
         (case out1 of
            None \<Rightarrow> (Inl UnboundLocalError, w1)
          | Some r \<Rightarrow>
             (let pred_label = normalize_label (label r);
                  conf = score r;
                  ps1 = ps @ [(text, expected, pred_label, conf)];
                  correct1 = (if pred_label = expected then correct + 1 else correct)
              in sample_loop E clf runs rest (latencies_ms1, correct1, ps1, out1) w1)))"

text \<open>
  The first part of \<open>run_one\<close> (lines 80 to 100): build the classifier, warm it up, run
  the loops; the samples and the number of runs are the module's
  \<open>SAMPLES\<close> and \<open>RUNS_PER_SAMPLE\<close>, taken as parameters.
\<close>

definition run_one_collect ::
  "('w, 'clf) env \<Rightarrow> (string \<times> string) list \<Rightarrow> nat \<Rightarrow> string \<Rightarrow> 'w
     \<Rightarrow> (error + real list \<times> nat \<times> (string \<times> string \<times> string \<times> real) list
           \<times> raw_prediction option) \<times> 'w" where
  "run_one_collect E samples runs model_name w =
     (case pipeline E model_name w of
        (Inl e, w1) \<Rightarrow> (Inl e, w1)
      | (Inr clf, w1) \<Rightarrow>
         (case classify E clf ''warmup'' w1 of
            (Inl e, w2) \<Rightarrow> (Inl e, w2)
          | (Inr _, w2) \<Rightarrow> sample_loop E clf runs samples ([], 0, [], None) w2))"

text \<open>
  The second part of \<open>run_one\<close> (lines 102 to 114): the metrics dictionary, its
  entries evaluated in the order they are written.
\<close>

definition run_one_metrics ::
  "real list \<Rightarrow> nat \<Rightarrow> (string \<times> string \<times> string \<times> real) list \<Rightarrow> nat \<Rightarrow> nat
     \<Rightarrow> error + model_result" where
  "run_one_metrics latencies_ms correct ps n runs =
     (case mean latencies_ms of Inl e \<Rightarrow> Inl e | Inr avg \<Rightarrow>
      (case py_min latencies_ms of Inl e \<Rightarrow> Inl e | Inr mn \<Rightarrow>
       (case py_max latencies_ms of Inl e \<Rightarrow> Inl e | Inr mx \<Rightarrow>
        (case median latencies_ms of Inl e \<Rightarrow> Inl e | Inr med \<Rightarrow>
         (let p = p95 latencies_ms
          in if n = 0 then Inl ZeroDivisionError
             else Inr \<lparr>avg_ms = avg, min_ms = mn, max_ms = mx, med_ms = med, p95_ms = p,
                       acc = real correct / real n, preds = ps, num_samples = n,
                       runs_per_sample = runs\<rparr>)))))"

definition run_one_on ::
  "('w, 'clf) env \<Rightarrow> (string \<times> string) list \<Rightarrow> nat \<Rightarrow> string \<Rightarrow> 'w
     \<Rightarrow> (error + model_result) \<times> 'w" where
  "run_one_on E samples runs model_name w =
     (case run_one_collect E samples runs model_name w of
        (Inl e, w1) \<Rightarrow> (Inl e, w1)
      | (Inr (latencies_ms, correct, ps, out), w1) \<Rightarrow>
          (run_one_metrics latencies_ms correct ps (length samples) runs, w1))"

definition run_one :: "('w, 'clf) env \<Rightarrow> string \<Rightarrow> 'w \<Rightarrow> (error + model_result) \<times> 'w" where
  "run_one E model_name w = run_one_on E SAMPLES RUNS_PER_SAMPLE model_name w"

section \<open>The run over all models and its report\<close>

text \<open>
  What \<open>main\<close> prints, one value per printed line. A row carries the values that the
  line formats; the formatting of the numbers is not modelled.
\<close>

datatype line =
    Loading string
  | Failed string error
  | Title
  | Config nat nat
  | SummaryHeader
  | SummaryRow string real real real real real real
  | DetailsOpen
  | DetailHeader
  | DetailRow string string string string real
  | DetailsClose

definition escape_pipes :: "string \<Rightarrow> string" where
  "escape_pipes text = concat (map (\<lambda>c. if c = CHR ''|'' then [CHR 0x5C, CHR ''|''] else [c]) text)"

definition summary_row :: "string \<times> string \<times> model_result \<Rightarrow> line" where
  "summary_row x =
     (case x of (model_id, pretty, r) \<Rightarrow>
        SummaryRow pretty (avg_ms r) (med_ms r) (p95_ms r) (min_ms r) (max_ms r) (acc r * 100))"

definition detail_rows :: "string \<times> string \<times> model_result \<Rightarrow> line list" where
  "detail_rows x =
     (case x of (model_id, pretty, r) \<Rightarrow>
        map (\<lambda>(text, expected, pred, conf). DetailRow pretty (escape_pipes text) expected pred conf)
          (preds r))"

text \<open>
  The loop of \<open>main\<close> over the models: \<open>all_results\<close> grows by one entry for a model
  whose evaluation returns, and the \<open>except Exception\<close> branch prints the failure and
  goes on with the next model.
\<close>

fun models_loop ::
  "('w, 'clf) env \<Rightarrow> (string \<times> string) list \<Rightarrow> nat \<Rightarrow> (string \<times> string) list
     \<Rightarrow> (string \<times> string \<times> model_result) list \<times> line list \<Rightarrow> 'w
     \<Rightarrow> ((string \<times> string \<times> model_result) list \<times> line list) \<times> 'w" where
  "models_loop E samples runs [] (all_results, printed) w = ((all_results, printed), w)"
| "models_loop E samples runs ((model_id, pretty) # rest) (all_results, printed) w =
     (case run_one_on E samples runs model_id w of
        (Inr res, w1) \<Rightarrow>
          models_loop E samples runs rest
            (all_results @ [(model_id, pretty, res)], printed @ [Loading model_id]) w1
      | (Inl e, w1) \<Rightarrow>
          models_loop E samples runs rest
            (all_results, printed @ [Loading model_id, Failed model_id e]) w1)"

definition main_on ::
  "('w, 'clf) env \<Rightarrow> (string \<times> string) list \<Rightarrow> (string \<times> string) list \<Rightarrow> nat \<Rightarrow> 'w
     \<Rightarrow> line list \<times> 'w" where
  "main_on E models samples runs w =
     (case models_loop E samples runs models ([], []) w of
        ((all_results, printed), w1) \<Rightarrow>
          (printed @ [Title, Config (length samples) runs, SummaryHeader]
             @ map summary_row all_results
             @ [DetailsOpen, DetailHeader]
             @ concat (map detail_rows all_results)
             @ [DetailsClose], w1))"

definition main :: "('w, 'clf) env \<Rightarrow> 'w \<Rightarrow> line list \<times> 'w" where
  "main E w = main_on E MODELS SAMPLES RUNS_PER_SAMPLE w"

section \<open>The pipeline cache of the comparison table\<close>

text \<open>
  \<open>_get_pipeline\<close> of \<open>benchmark_ui.py\<close>, with the dictionary \<open>_PIPELINES\<close> as a map
  next to the world. The classifier is stored before the warm-up call, and whatever
  the warm-up call raises is dropped.
\<close>

definition get_pipeline ::
  "('w, 'clf) env \<Rightarrow> string \<Rightarrow> (string \<rightharpoonup> 'clf) \<times> 'w \<Rightarrow> (error + 'clf) \<times> (string \<rightharpoonup> 'clf) \<times> 'w" where
  "get_pipeline E model_id st =
     (case st of (PIPELINES, w) \<Rightarrow>
        (case PIPELINES model_id of
           Some clf \<Rightarrow> (Inr clf, PIPELINES, w)
         | None \<Rightarrow>
            (case pipeline E model_id w of
               (Inl e, w1) \<Rightarrow> (Inl e, PIPELINES, w1)
             | (Inr clf, w1) \<Rightarrow>
                (case classify E clf ''warmup'' w1 of
                   (r, w2) \<Rightarrow> (Inr clf, PIPELINES(model_id \<mapsto> clf), w2)))))"

section \<open>Notions used to state the properties\<close>

text \<open>A string is trimmed when it neither starts nor ends with a whitespace character.\<close>

definition trimmed :: "string \<Rightarrow> bool" where
  "trimmed s = (s = [] \<or> (\<not> isspace (hd s) \<and> \<not> isspace (last s)))"

text \<open>
  A case/whitespace variant of a key: the key's letters in any case, with any whitespace
  before and after. \<open>KEYS\<close> lists the strings that the normalizer recognises.
\<close>

definition case_ws_variant :: "string \<Rightarrow> string \<Rightarrow> bool" where
  "case_ws_variant k s =
     (\<exists>pre body post. s = pre @ body @ post \<and> list_all isspace pre \<and> list_all isspace post
        \<and> lower body = k)"

definition KEYS :: "string list" where
  "KEYS = [''positive'', ''pos'', ''label_1'', ''1'', ''negative'', ''neg'', ''label_0'', ''0'', ''neutral'']"

text \<open>
  The number of entries of a prediction list whose predicted label is the expected one,
  and the sample that an entry was made for.
\<close>

definition hits :: "(string \<times> string \<times> string \<times> real) list \<Rightarrow> nat" where
  "hits ps = length (filter (\<lambda>(text, expected, pred, conf). pred = expected) ps)"

definition sample_of :: "string \<times> string \<times> string \<times> real \<Rightarrow> string \<times> string" where
  "sample_of p = (case p of (text, expected, pred, conf) \<Rightarrow> (text, expected))"

text \<open>
  The calls that a run makes, in their order: an instrumented library records each
  construction of a classifier, each inference call and each reading of the clock, and
  behaves as the library it wraps. \<open>timed_trace\<close> is the record of the timed calls
  on the samples: each call between two readings of the clock.
\<close>

datatype event = Built string | Called string | Clock

definition traced :: "('w, 'clf) env \<Rightarrow> ('w \<times> event list, 'clf) env" where
  "traced E =
     \<lparr>pipeline = (\<lambda>m (w, tr). case pipeline E m w of (r, w1) \<Rightarrow> (r, (w1, tr @ [Built m]))),
      classify = (\<lambda>clf text (w, tr).
        case classify E clf text w of (r, w1) \<Rightarrow> (r, (w1, tr @ [Called text]))),
      perf_counter = (\<lambda>(w, tr). case perf_counter E w of (t, w1) \<Rightarrow> (t, (w1, tr @ [Clock])))\<rparr>"

definition timed_trace :: "nat \<Rightarrow> (string \<times> string) list \<Rightarrow> event list" where
  "timed_trace runs samples =
     concat (map (\<lambda>(text, expected). concat (replicate runs [Clock, Called text, Clock])) samples)"

text \<open>
  A scripted library for concrete runs. The model \<open>broken\<close> cannot be loaded; the
  classifier of \<open>cold\<close> raises on the warm-up text only; the classifier of \<open>echo\<close>
  answers with the expected label of the sample; every other classifier answers
  \<open>NEGATIVE\<close>, and \<open>POSITIVE\<close> on each third timed call. The world is the number of
  clock readings so far, which is also the time.
\<close>

definition demo_env :: "(nat, string) env" where
  "demo_env =
     \<lparr>pipeline = (\<lambda>m w. (if m = ''broken'' then Inl (Raised ''cannot load'') else Inr m, w)),
      classify = (\<lambda>clf text w.
        (if clf = ''cold'' \<and> text = ''warmup'' then Inl (Raised ''warm-up failed'')
         else if clf = ''echo'' then Inr \<lparr>label = map_of SAMPLES text, score = 1\<rparr>
         else Inr \<lparr>label = Some (if w mod 6 = 5 then ''POSITIVE'' else ''NEGATIVE''),
                   score = 1 / 2\<rparr>, w)),
      perf_counter = (\<lambda>w. (real w, Suc w))\<rparr>"

text \<open>The inference calls among the recorded events.\<close>

fun is_call :: "event \<Rightarrow> bool" where
  "is_call (Called t) = True"
| "is_call ev = False"

text \<open>The result of a scripted run, in which every timed call lasts one clock tick.\<close>

definition demo_result :: "real \<Rightarrow> (string \<times> string \<times> string \<times> real) list \<Rightarrow> model_result" where
  "demo_result a ps =
     \<lparr>avg_ms = 1000, min_ms = 1000, max_ms = 1000, med_ms = 1000, p95_ms = 1000, acc = a,
      preds = ps, num_samples = length ps, runs_per_sample = 3\<rparr>"

text \<open>
  What happens to each model of a run, in the order of the models: the result of its
  evaluation or the exception that ended it, each evaluation starting in the world that
  the one before it left. \<open>successes\<close> are the models that have a result, and
  \<open>failures\<close> the failure lines of the others. The last three functions pick the
  rows of the two tables and the failure lines out of a report.
\<close>

fun outcomes ::
  "('w, 'clf) env \<Rightarrow> (string \<times> string) list \<Rightarrow> nat \<Rightarrow> (string \<times> string) list \<Rightarrow> 'w
     \<Rightarrow> ((string \<times> string) \<times> (error + model_result)) list" where
  "outcomes E samples runs [] w = []"
| "outcomes E samples runs ((model_id, pretty) # rest) w =
     (case run_one_on E samples runs model_id w of
        (r, w1) \<Rightarrow> ((model_id, pretty), r) # outcomes E samples runs rest w1)"

fun successes ::
  "((string \<times> string) \<times> (error + model_result)) list \<Rightarrow> (string \<times> string \<times> model_result) list" where
  "successes [] = []"
| "successes (((model_id, pretty), Inr res) # os) = (model_id, pretty, res) # successes os"
| "successes (((model_id, pretty), Inl e) # os) = successes os"

fun failures :: "((string \<times> string) \<times> (error + model_result)) list \<Rightarrow> line list" where
  "failures [] = []"
| "failures (((model_id, pretty), Inr res) # os) = failures os"
| "failures (((model_id, pretty), Inl e) # os) = Failed model_id e # failures os"

fun is_summary_row :: "line \<Rightarrow> bool" where
  "is_summary_row (SummaryRow pretty a m p mn mx ac) = True"
| "is_summary_row l = False"

fun is_detail_row :: "line \<Rightarrow> bool" where
  "is_detail_row (DetailRow pretty t e p c) = True"
| "is_detail_row l = False"

fun is_failed :: "line \<Rightarrow> bool" where
  "is_failed (Failed model_id e) = True"
| "is_failed l = False"

section \<open>Properties of the string functions\<close>

lemma of_char_lower_char:
  "(of_char (lower_char c) :: nat) =
     (let n = (of_char c :: nat)
      in if (65 \<le> n \<and> n \<le> 90) \<or> (192 \<le> n \<and> n \<le> 222 \<and> n \<noteq> 215) then n + 32 else n)"
  by (auto simp: lower_char_def Let_def)

lemma isspace_lower_char [simp]: "isspace (lower_char c) = isspace c"
  unfolding isspace_def of_char_lower_char by (auto simp: Let_def)

lemma lower_char_idem [simp]: "lower_char (lower_char c) = lower_char c"
proof -
  have "(of_char (lower_char (lower_char c)) :: nat) = of_char (lower_char c)"
    unfolding of_char_lower_char [of "lower_char c"] 
    by (auto simp: of_char_lower_char Let_def)
  then show ?thesis by (simp only: of_char_eq_iff)
qed

lemma lower_idem [simp]: "lower (lower s) = lower s"
  by (simp add: lower_def)

lemma lower_lstrip: "lower (lstrip s) = lstrip (lower s)"
  by (simp add: lower_def lstrip_def dropWhile_map comp_def)

lemma lower_rstrip: "lower (rstrip s) = rstrip (lower s)"
  by (simp add: lower_def rstrip_def dropWhile_map comp_def rev_map)

lemma lower_strip: "lower (strip s) = strip (lower s)"
  by (simp add: strip_def lower_rstrip lower_lstrip)

lemma strip_trimmed: "trimmed s \<Longrightarrow> strip s = s"
proof (cases s)
  case Nil
  then show ?thesis by (simp add: strip_def lstrip_def rstrip_def)
next
  case (Cons c cs)
  assume "trimmed s"
  with Cons have h: "\<not> isspace c" and l: "\<not> isspace (last s)"
    by (auto simp: trimmed_def)
  have "lstrip s = s" using h Cons by (simp add: lstrip_def)
  moreover have "rstrip s = s"
  proof -
    have "rev s \<noteq> []" using Cons by simp
    moreover have "hd (rev s) = last s" using Cons by (simp add: hd_rev)
    ultimately have "dropWhile isspace (rev s) = rev s"
      using l by (simp add: dropWhile_eq_self_iff)
    then show ?thesis by (simp add: rstrip_def)
  qed
  ultimately show ?thesis by (simp add: strip_def)
qed

lemma lstrip_hd: "lstrip s \<noteq> [] \<Longrightarrow> \<not> isspace (hd (lstrip s))"
  unfolding lstrip_def by (rule hd_dropWhile)

lemma rstrip_last: "rstrip s \<noteq> [] \<Longrightarrow> \<not> isspace (last (rstrip s))"
proof -
  assume a: "rstrip s \<noteq> []"
  then have "dropWhile isspace (rev s) \<noteq> []" by (simp add: rstrip_def)
  then have "\<not> isspace (hd (dropWhile isspace (rev s)))" by (rule hd_dropWhile)
  then show ?thesis using a by (simp add: rstrip_def last_rev)
qed

lemma rstrip_hd: "rstrip s \<noteq> [] \<Longrightarrow> \<not> isspace (hd s) \<Longrightarrow> hd (rstrip s) = hd s"
proof (induction s)
  case Nil
  then show ?case by (simp add: rstrip_def)
next
  case (Cons c cs)
  then show ?case
    by (simp add: rstrip_def dropWhile_append)
qed

lemma trimmed_strip: "trimmed (strip s)"
proof (cases "strip s = []")
  case True
  then show ?thesis by (simp add: trimmed_def)
next
  case False
  then have r: "rstrip (lstrip s) \<noteq> []" by (simp add: strip_def)
  then have "lstrip s \<noteq> []" by (auto simp: rstrip_def)
  then have h: "\<not> isspace (hd (lstrip s))" by (rule lstrip_hd)
  have "hd (strip s) = hd (lstrip s)"
    unfolding strip_def using r h by (rule rstrip_hd)
  moreover have "\<not> isspace (last (strip s))"
    unfolding strip_def using r by (rule rstrip_last)
  ultimately show ?thesis using h by (simp add: trimmed_def)
qed

lemma strip_idem [simp]: "strip (strip s) = strip s"
  by (rule strip_trimmed) (rule trimmed_strip)

lemma strip_lower_strip: "strip (lower (strip s)) = lower (strip s)"
  by (simp add: lower_strip [symmetric])

lemmas string_eval =
  lower_def strip_def lstrip_def rstrip_def isspace_def lower_char_def char_of_eq_iff

lemma normalize_label_canonical:
  "normalize_label (Some ''positive'') = ''positive''"
  "normalize_label (Some ''negative'') = ''negative''"
  "normalize_label (Some ''unknown'') = ''unknown''"
  by (simp_all add: normalize_label_def string_eval)

lemma normalize_label_passthrough:
  assumes "lower (strip s) \<notin> {''positive'', ''pos'', ''label_1'', ''1''}"
    and "lower (strip s) \<notin> {''negative'', ''neg'', ''label_0'', ''0''}"
    and "lower (strip s) \<noteq> ''neutral''"
  shows "normalize_label (Some s) = lower (strip s)"
  using assms by (simp add: normalize_label_def Let_def)

section \<open>Properties of the label normalizer\<close>

text \<open>
  Claim C10. The normalizer of the benchmark is idempotent: for every input, \<open>None\<close>
  included, normalizing the result again gives the same result; and every result is
  already stripped of surrounding whitespace and in lower case.
\<close>

theorem normalize_label_idempotent:
  "normalize_label (Some (normalize_label x)) = normalize_label x
   \<and> strip (normalize_label x) = normalize_label x
   \<and> lower (normalize_label x) = normalize_label x"
proof (cases x)
  case None
  then show ?thesis by (simp add: normalize_label_def string_eval)
next
  case (Some s)
  define t where "t = lower (strip s)"
  define P where "P = (t \<in> {''positive'', ''pos'', ''label_1'', ''1''})"
  define N where "N = (t \<in> {''negative'', ''neg'', ''label_0'', ''0''} \<or> t = ''neutral'')"
  have fx: "lower (strip t) = t" "strip t = t" "lower t = t"
    by (simp_all add: t_def strip_lower_strip)
  have nl: "normalize_label x = (if P then ''positive'' else if N then ''negative'' else t)"
    unfolding P_def N_def t_def Some normalize_label_def by (simp add: Let_def)
  consider (pos) "P" | (neg) "\<not> P" "N" | (other) "\<not> P" "\<not> N"
    by blast
  then show ?thesis
  proof cases
    case pos
    then have "normalize_label x = ''positive''" by (simp add: nl)
    then show ?thesis by (simp add: normalize_label_canonical string_eval)
  next
    case neg
    then have "normalize_label x = ''negative''" by (simp add: nl)
    then show ?thesis by (simp add: normalize_label_canonical string_eval)
  next
    case other
    then have r: "normalize_label x = t" by (simp add: nl)
    have "normalize_label (Some t) = lower (strip t)"
      using other unfolding P_def N_def
      by (intro normalize_label_passthrough) (simp_all only: fx not_False_eq_True de_Morgan_disj)
    then show ?thesis using r fx by simp
  qed
qed

theorem normalize_label_idempotent_witness:
  "normalize_label (Some (normalize_label (Some '' Label_1 ''))) = ''positive''
   \<and> normalize_label (Some (normalize_label (Some '' Mixed Case ''))) = ''mixed case''
   \<and> normalize_label (Some (normalize_label None)) = ''unknown''"
  using normalize_label_idempotent [of "Some '' Label_1 ''"]
    normalize_label_idempotent [of "Some '' Mixed Case ''"]
    normalize_label_idempotent [of None]
  by (simp add: normalize_label_def string_eval)

section \<open>Properties of the statistics functions\<close>

lemma p95_index: "nat \<lfloor>0.95 * real n\<rfloor> = (19 * n) div 20"
proof -
  have "(0.95::real) * real n = real (19 * n) / real 20" by simp
  then have "\<lfloor>(0.95::real) * real n\<rfloor> = \<lfloor>real (19 * n) / real 20\<rfloor>" by simp
  also have "\<dots> = int ((19 * n) div 20)" by (rule floor_divide_of_nat_eq)
  finally show ?thesis by simp
qed

lemma p95_index_less: "0 < n \<Longrightarrow> nat \<lfloor>0.95 * real (n - 1)\<rfloor> < n"
  unfolding p95_index by simp

lemma p95_nonempty:
  "xs \<noteq> [] \<Longrightarrow> p95 xs = sort xs ! nat \<lfloor>0.95 * real (length xs - 1)\<rfloor>"
  by (simp add: p95_def Let_def)

text \<open>
  Claim C5. \<open>p95\<close> of the empty sequence is 0; \<open>p95\<close> of a one-element sequence is
  its element; for a non-empty sequence \<open>p95\<close> is the element of the ascending sort at
  index \<open>floor (0.95 * (count - 1))\<close>, an index inside the sequence; and for a strictly
  increasing sequence of 20 values it is the value at index 18.
\<close>

theorem p95_policy:
  "p95 [] = 0
   \<and> p95 [x] = x
   \<and> (xs \<noteq> [] \<longrightarrow>
        p95 xs = sort xs ! nat \<lfloor>0.95 * real (length xs - 1)\<rfloor>
        \<and> nat \<lfloor>0.95 * real (length xs - 1)\<rfloor> < length (sort xs)
        \<and> p95 xs \<in> set xs)
   \<and> (length xs = 20 \<and> sorted_wrt (<) xs \<longrightarrow> p95 xs = xs ! 18)"
proof (intro conjI impI)
  show "p95 [] = 0" by (simp add: p95_def)
  show "p95 [x] = x" by (simp add: p95_def)
next
  assume ne: "xs \<noteq> []"
  show eq: "p95 xs = sort xs ! nat \<lfloor>0.95 * real (length xs - 1)\<rfloor>"
    using ne by (rule p95_nonempty)
  show lt: "nat \<lfloor>0.95 * real (length xs - 1)\<rfloor> < length (sort xs)"
    using ne by (simp only: length_sort) (rule p95_index_less, simp)
  have "sort xs ! nat \<lfloor>0.95 * real (length xs - 1)\<rfloor> \<in> set (sort xs)"
    using lt by (rule nth_mem)
  then show "p95 xs \<in> set xs" by (simp add: eq)
next
  assume a: "length xs = 20 \<and> sorted_wrt (<) xs"
  then have ne: "xs \<noteq> []" by auto
  have "sorted xs" using a by (simp add: strict_sorted_imp_sorted)
  then have s: "sort xs = xs" by (rule sorted_sort_id)
  have "nat \<lfloor>0.95 * real (length xs - 1)\<rfloor> = 18" using a by (simp add: p95_index)
  then show "p95 xs = xs ! 18" using ne s by (simp add: p95_nonempty)
qed

theorem p95_policy_witness:
  "p95 [5, 1, 4, 2, 3] = 4
   \<and> p95 [1, 2, 3, 4, 5, 6, 7, 8, 9, 10, 11, 12, 13, 14, 15, 16, 17, 18, 19, 20] = 19"
proof -
  have a: "p95 [5, 1, 4, 2, 3] = 4"
    using p95_policy [of 0 "[5, 1, 4, 2, 3]"] by (simp add: p95_index)
  have "p95 [1, 2, 3, 4, 5, 6, 7, 8, 9, 10, 11, 12, 13, 14, 15, 16, 17, 18, 19, 20]
        = [1, 2, 3, 4, 5, 6, 7, 8, 9, 10, 11, 12, 13, 14, 15, 16, 17, 18, 19, 20 :: real] ! 18"
    using p95_policy [of 0 "[1, 2, 3, 4, 5, 6, 7, 8, 9, 10, 11, 12, 13, 14, 15, 16, 17, 18, 19, 20]"]
    by simp
  then show ?thesis using a by simp
qed

lemma statistics_nonempty:
  assumes "xs \<noteq> []"
  shows "mean xs = Inr (sum_list xs / real (length xs))"
    and "py_min xs = Inr (Min (set xs))"
    and "py_max xs = Inr (Max (set xs))"
    and "\<exists>d. median xs = Inr d"
proof -
  show "mean xs = Inr (sum_list xs / real (length xs))" using assms by (simp add: mean_def)
  show "py_min xs = Inr (Min (set xs))"
    using assms by (cases xs) (simp_all add: py_min_def Min.set_eq_fold [symmetric])
  show "py_max xs = Inr (Max (set xs))"
    using assms by (cases xs) (simp_all add: py_max_def Max.set_eq_fold [symmetric])
  have "length (sort xs) = length xs" by simp
  then have "sort xs \<noteq> []" using assms by (cases "sort xs") auto
  then have "median xs =
          Inr (if length xs mod 2 = 1 then sort xs ! (length xs div 2)
               else (sort xs ! (length xs div 2 - 1) + sort xs ! (length xs div 2)) / 2)"
    by (simp add: median_def Let_def)
  then show "\<exists>d. median xs = Inr d" by (rule exI)
qed

text \<open>
  Claim C3, as stated: every statistics function returns 0.0 on the empty sequence.
  This fails for four of the five: \<open>mean\<close>, \<open>min\<close>, \<open>max\<close> and \<open>median\<close>
  raise on the empty sequence.
\<close>

theorem empty_statistics_counterexample:
  "mean [] \<noteq> Inr 0 \<and> py_min [] \<noteq> Inr 0 \<and> py_max [] \<noteq> Inr 0 \<and> median [] \<noteq> Inr 0"
  by (simp add: mean_def py_min_def py_max_def median_def)

text \<open>
  Claim C3, amended. Of the five statistics only \<open>p95\<close> returns 0 on the empty
  sequence; \<open>mean\<close> and \<open>median\<close> raise \<open>StatisticsError\<close> and \<open>min\<close> and
  \<open>max\<close> raise \<open>ValueError\<close> there. On a non-empty sequence none of them raises.
\<close>

theorem empty_statistics:
  "p95 [] = 0
   \<and> mean [] = Inl StatisticsError
   \<and> py_min [] = Inl ValueError
   \<and> py_max [] = Inl ValueError
   \<and> median [] = Inl StatisticsError
   \<and> (xs \<noteq> [] \<longrightarrow>
        mean xs = Inr (sum_list xs / real (length xs))
        \<and> py_min xs = Inr (Min (set xs))
        \<and> py_max xs = Inr (Max (set xs))
        \<and> (\<exists>d. median xs = Inr d))"
proof (intro conjI impI)
  assume ne: "xs \<noteq> []"
  show "mean xs = Inr (sum_list xs / real (length xs))" using ne by (rule statistics_nonempty)
  show "py_min xs = Inr (Min (set xs))" using ne by (rule statistics_nonempty)
  show "py_max xs = Inr (Max (set xs))" using ne by (rule statistics_nonempty)
  show "\<exists>d. median xs = Inr d"  using ne by (rule statistics_nonempty)
qed (simp_all add: p95_def mean_def py_min_def py_max_def median_def)

theorem empty_statistics_witness:
  "mean [2, 1, 6] = Inr 3 \<and> py_min [2, 1, 6] = Inr 1 \<and> py_max [2, 1, 6] = Inr 6
   \<and> median [2, 1, 6] = Inr 2 \<and> median [2, 1, 6, 4] = Inr 3"
proof -
  have "mean [2, 1, 6] = Inr 3 \<and> py_min [2, 1, 6] = Inr 1 \<and> py_max [2, 1, 6] = Inr 6"
    using empty_statistics [of "[2, 1, 6]"] by simp
  moreover have "median [2, 1, 6] = Inr 2" "median [2, 1, 6, 4] = Inr 3"
    by (simp_all add: median_def Let_def)
  ultimately show ?thesis by simp
qed

section \<open>The mapping of the label normalizer\<close>

lemma dropWhile_pad: "list_all P a \<Longrightarrow> dropWhile P (a @ u) = dropWhile P u"
  by (induction a) simp_all

lemma lstrip_pad: "list_all isspace a \<Longrightarrow> lstrip (a @ u) = lstrip u"
  by (simp add: lstrip_def dropWhile_pad)

lemma rstrip_pad: "list_all isspace b \<Longrightarrow> rstrip (u @ b) = rstrip u"
  by (simp add: rstrip_def dropWhile_pad)

lemma strip_pad:
  assumes "list_all isspace a" and "list_all isspace b" and "trimmed k" and "k \<noteq> []"
  shows "strip (a @ k @ b) = k"
proof -
  have hd: "\<not> isspace (hd k)" and la: "\<not> isspace (last k)"
    using assms(3,4) by (auto simp: trimmed_def)
  have "lstrip (a @ k @ b) = lstrip (k @ b)" using assms(1) by (rule lstrip_pad)
  also have "\<dots> = k @ b" using hd assms(4) by (cases k) (simp_all add: lstrip_def)
  finally have l: "lstrip (a @ k @ b) = k @ b" .
  have "rstrip (k @ b) = rstrip k" using assms(2) by (rule rstrip_pad)
  also have "\<dots> = k"
  proof -
    have "dropWhile isspace (rev k) = rev k"
      using la assms(4) by (simp add: dropWhile_eq_self_iff hd_rev)
    then show ?thesis by (simp add: rstrip_def)
  qed
  finally show ?thesis by (simp add: strip_def l)
qed

lemma strip_decompose:
  "\<exists>pre post. s = pre @ strip s @ post \<and> list_all isspace pre \<and> list_all isspace post"
proof -
  define pre where "pre = takeWhile isspace s"
  define post where "post = rev (takeWhile isspace (rev (lstrip s)))"
  have 1: "s = pre @ lstrip s" by (simp add: pre_def lstrip_def)
  have "rev (lstrip s) = rev post @ rev (strip s)"
    by (simp add: post_def strip_def rstrip_def)
  then have "rev (rev (lstrip s)) = rev (rev post @ rev (strip s))" by (rule arg_cong)
  then have 2: "lstrip s = strip s @ post" by simp
  have 3: "list_all isspace pre"
    unfolding pre_def list_all_iff by (auto dest: set_takeWhileD)
  have 4: "list_all isspace post"
    unfolding post_def list_all_iff by (auto dest: set_takeWhileD)
  from 1 2 have "s = pre @ strip s @ post" by simp
  with 3 4 show ?thesis by blast
qed

lemma lower_all_space: "list_all isspace (lower a) = list_all isspace a"
  by (simp add: lower_def list_all_iff)

lemma lower_append: "lower (a @ b) = lower a @ lower b"
  by (simp add: lower_def)

lemma case_ws_variant_iff:
  assumes "k \<noteq> []" and "trimmed k"
  shows "case_ws_variant k s = (lower (strip s) = k)"
proof
  assume "case_ws_variant k s"
  then obtain pre body post where s: "s = pre @ body @ post"
    and pre: "list_all isspace pre" and post: "list_all isspace post" and k: "lower body = k"
    by (auto simp: case_ws_variant_def)
  have "lower (strip s) = strip (lower pre @ k @ lower post)"
    by (simp add: lower_strip s lower_append k)
  also have "\<dots> = k"
    using pre post assms by (intro strip_pad) (simp_all add: lower_all_space)
  finally show "lower (strip s) = k" .
next
  assume a: "lower (strip s) = k"
  obtain pre post where "s = pre @ strip s @ post" "list_all isspace pre" "list_all isspace post"
    using strip_decompose [of s] by blast
  with a show "case_ws_variant k s" unfolding case_ws_variant_def by blast
qed

lemma keys_trimmed: "k \<in> set KEYS \<Longrightarrow> k \<noteq> [] \<and> trimmed k"
  unfolding KEYS_def by (auto simp: trimmed_def isspace_def)

lemma not_variant_of_any_key:
  assumes "lower (strip s) \<notin> set KEYS"
  shows "\<forall>k \<in> set KEYS. \<not> case_ws_variant k s"
proof
  fix k
  assume m: "k \<in> set KEYS"
  then have "case_ws_variant k s = (lower (strip s) = k)"
    using keys_trimmed case_ws_variant_iff by blast
  then show "\<not> case_ws_variant k s" using assms m by auto
qed

text \<open>
  Claim C1, as stated, says that an empty input gives \<open>unknown\<close>. The normalizer of
  the benchmark returns the empty string for it.
\<close>

theorem normalize_label_empty_counterexample:
  "normalize_label (Some []) = [] \<and> normalize_label (Some []) \<noteq> ''unknown''"
  by (simp add: normalize_label_def string_eval)

text \<open>
  Claim C1, amended. \<open>normalize_label\<close> maps \<open>None\<close> to \<open>unknown\<close>; every
  case/whitespace variant of \<open>positive\<close>, \<open>pos\<close>, \<open>label_1\<close> or \<open>1\<close> to
  \<open>positive\<close>; every variant of \<open>negative\<close>, \<open>neg\<close>, \<open>label_0\<close>, \<open>0\<close> or
  \<open>neutral\<close> to \<open>negative\<close>; and every other string, the empty one included, to
  itself stripped and in lower case. The normalizer of the comparison table maps the
  inputs that \<open>normalize_label\<close> maps to \<open>positive\<close> to \<open>positive\<close> and every
  other input, \<open>None\<close> included, to \<open>negative\<close>.
\<close>

theorem normalize_label_mapping:
  "normalize_label None = ''unknown''
   \<and> (case_ws_variant k s \<and> k \<in> {''positive'', ''pos'', ''label_1'', ''1''}
        \<longrightarrow> normalize_label (Some s) = ''positive'')
   \<and> (case_ws_variant k s \<and> k \<in> {''negative'', ''neg'', ''label_0'', ''0'', ''neutral''}
        \<longrightarrow> normalize_label (Some s) = ''negative'')
   \<and> ((\<forall>k \<in> set KEYS. \<not> case_ws_variant k s)
        \<longrightarrow> normalize_label (Some s) = lower (strip s))
   \<and> ui_normalize None = ''negative''
   \<and> ui_normalize (Some s) =
        (if normalize_label (Some s) = ''positive'' then ''positive'' else ''negative'')"
proof (intro conjI impI)
  show "normalize_label None = ''unknown''" by (simp add: normalize_label_def)
next
  assume a: "case_ws_variant k s \<and> k \<in> {''positive'', ''pos'', ''label_1'', ''1''}"
  then have "k \<in> set KEYS" by (auto simp: KEYS_def)
  then have "lower (strip s) = k" using a keys_trimmed case_ws_variant_iff by blast
  then show "normalize_label (Some s) = ''positive''"
    using a by (simp add: normalize_label_def)
next
  assume a: "case_ws_variant k s \<and> k \<in> {''negative'', ''neg'', ''label_0'', ''0'', ''neutral''}"
  then have "k \<in> set KEYS" by (auto simp: KEYS_def)
  then have "lower (strip s) = k" using a keys_trimmed case_ws_variant_iff by blast
  then show "normalize_label (Some s) = ''negative''"
    using a by (auto simp: normalize_label_def)
next
  assume a: "\<forall>k \<in> set KEYS. \<not> case_ws_variant k s"
  have "lower (strip s) \<notin> set KEYS"
  proof
    assume m: "lower (strip s) \<in> set KEYS"
    then have "case_ws_variant (lower (strip s)) s"
      using keys_trimmed case_ws_variant_iff by blast
    with a m show False by blast
  qed
  then show "normalize_label (Some s) = lower (strip s)"
    by (intro normalize_label_passthrough) (simp_all add: KEYS_def)
next
  show "ui_normalize None = ''negative''" by (simp add: ui_normalize_def string_eval)
next
  show "ui_normalize (Some s) =
        (if normalize_label (Some s) = ''positive'' then ''positive'' else ''negative'')"
    by (auto simp: ui_normalize_def normalize_label_def Let_def)
qed

theorem normalize_label_mapping_witness:
  "normalize_label (Some '' POSITIVE '') = ''positive''
   \<and> normalize_label (Some ''Neutral'') = ''negative''
   \<and> normalize_label (Some '' Mixed Case '') = ''mixed case''
   \<and> normalize_label (Some []) = []
   \<and> ui_normalize (Some '' Mixed Case '') = ''negative''"
proof -
  have v1: "case_ws_variant ''positive'' '' POSITIVE ''"
    by (simp add: case_ws_variant_iff trimmed_def string_eval)
  have v2: "case_ws_variant ''neutral'' ''Neutral''"
    by (simp add: case_ws_variant_iff trimmed_def string_eval)
  have v3: "\<forall>k \<in> set KEYS. \<not> case_ws_variant k '' Mixed Case ''"
    by (rule not_variant_of_any_key) (simp add: KEYS_def string_eval)
  have v4: "\<forall>k \<in> set KEYS. \<not> case_ws_variant k []"
    by (rule not_variant_of_any_key) (simp add: KEYS_def string_eval)
  have e: "lower (strip '' Mixed Case '') = ''mixed case''" "lower (strip []) = []"
    by (simp_all add: string_eval)
  show ?thesis
    using v1 v2 v3 v4 e
      normalize_label_mapping [of "''positive''" "'' POSITIVE ''"]
      normalize_label_mapping [of "''neutral''" "''Neutral''"]
      normalize_label_mapping [of "[]" "'' Mixed Case ''"]
      normalize_label_mapping [of "[]" "[]"]
    by simp
qed

section \<open>Properties of the loops of one evaluation\<close>

lemma timed_calls_success:
  "timed_calls E clf text n (lat, out) w = (Inr (lat1, out1), w1) \<Longrightarrow>
     (\<exists>ds. lat1 = lat @ ds \<and> length ds = n)
     \<and> (n = 0 \<longrightarrow> out1 = out) \<and> (0 < n \<longrightarrow> out1 \<noteq> None)"
proof (induction n arbitrary: lat out w)
  case 0
  then show ?case by simp
next
  case (Suc n)
  obtain t0 w2 where c0: "perf_counter E w = (t0, w2)" by (cases "perf_counter E w")
  obtain r w3 where c1: "classify E clf text w2 = (r, w3)" by (cases "classify E clf text w2")
  obtain t1 w4 where c2: "perf_counter E w3 = (t1, w4)" by (cases "perf_counter E w3")
  show ?case
  proof (cases r)
    case (Inl e)
    with Suc.prems c0 c1 show ?thesis by simp
  next
    case (Inr p)
    with Suc.prems c0 c1 c2
    have "timed_calls E clf text n (lat @ [(t1 - t0) * 1000], Some p) w4 = (Inr (lat1, out1), w1)"
      by simp
    from Suc.IH [OF this] obtain ds where ds: "lat1 = (lat @ [(t1 - t0) * 1000]) @ ds"
      "length ds = n" and o: "n = 0 \<longrightarrow> out1 = Some p" "0 < n \<longrightarrow> out1 \<noteq> None"
      by blast
    from ds have "lat1 = lat @ ((t1 - t0) * 1000 # ds) \<and> length ((t1 - t0) * 1000 # ds) = Suc n"
      by simp
    then have "\<exists>ds. lat1 = lat @ ds \<and> length ds = Suc n" by blast
    moreover have "out1 \<noteq> None" using o by (cases n) auto
    ultimately show ?thesis by simp
  qed
qed

lemma timed_calls_snoc:
  "timed_calls E clf text (Suc n) st w =
     (case timed_calls E clf text n st w of
        (Inl e, w1) \<Rightarrow> (Inl e, w1)
      | (Inr st1, w1) \<Rightarrow> timed_calls E clf text (Suc 0) st1 w1)"
proof (induction n arbitrary: st w)
  case 0
  show ?case by (cases st) (simp split: prod.splits sum.splits)
next
  case (Suc n)
  obtain lat out where st: "st = (lat, out)" by (cases st)
  obtain t0 w2 where c0: "perf_counter E w = (t0, w2)" by (cases "perf_counter E w")
  obtain r w3 where c1: "classify E clf text w2 = (r, w3)" by (cases "classify E clf text w2")
  obtain t1 w4 where c2: "perf_counter E w3 = (t1, w4)" by (cases "perf_counter E w3")
  show ?case
  proof (cases r)
    case (Inl e)
    then show ?thesis using st c0 c1 by simp
  next
    case (Inr p)
    have "timed_calls E clf text (Suc (Suc n)) st w
          = timed_calls E clf text (Suc n) (lat @ [(t1 - t0) * 1000], Some p) w4"
      using st c0 c1 c2 Inr by simp
    also have "\<dots> = (case timed_calls E clf text n (lat @ [(t1 - t0) * 1000], Some p) w4 of
        (Inl e, w1) \<Rightarrow> (Inl e, w1)
      | (Inr st1, w1) \<Rightarrow> timed_calls E clf text (Suc 0) st1 w1)"
      by (rule Suc.IH)
    also have "timed_calls E clf text n (lat @ [(t1 - t0) * 1000], Some p) w4
          = timed_calls E clf text (Suc n) st w"
      using st c0 c1 c2 Inr by simp
    finally show ?thesis .
  qed
qed

lemma hits_Cons:
  "hits ((text, expected, pred, conf) # qs) = (if pred = expected then 1 else 0) + hits qs"
  by (simp add: hits_def)

lemma sample_loop_success:
  "sample_loop E clf runs samples (lat, c, ps, out) w = (Inr (lat1, c1, ps1, out1), w1) \<Longrightarrow>
     \<exists>ds qs. lat1 = lat @ ds \<and> length ds = length samples * runs
        \<and> ps1 = ps @ qs \<and> map sample_of qs = samples \<and> c1 = c + hits qs"
proof (induction samples arbitrary: lat c ps out w)
  case Nil
  then show ?case by (simp add: hits_def)
next
  case (Cons s rest)
  obtain tx expected where s: "s = (tx, expected)" by (cases s)
  obtain r w2 where t: "timed_calls E clf tx runs (lat, out) w = (r, w2)"
    by (cases "timed_calls E clf tx runs (lat, out) w")
  show ?case
  proof (cases r)
    case (Inl e)
    with Cons.prems s t show ?thesis by simp
  next
    case (Inr x)
    obtain lat2 out2 where x: "x = (lat2, out2)" by (cases x)
    show ?thesis
    proof (cases out2)
      case None
      with Cons.prems s t Inr x show ?thesis by simp
    next
      case (Some p)
      define q where "q = (tx, expected, normalize_label (label p), score p)"
      define c2 where "c2 = (if normalize_label (label p) = expected then c + 1 else c)"
      have "sample_loop E clf runs rest (lat2, c2, ps @ [q], out2) w2
            = (Inr (lat1, c1, ps1, out1), w1)"
        using Cons.prems s t Inr x Some by (simp add: Let_def q_def c2_def)
      from Cons.IH [OF this] obtain ds qs where
        r: "lat1 = lat2 @ ds" "length ds = length rest * runs" "ps1 = (ps @ [q]) @ qs"
          "map sample_of qs = rest" "c1 = c2 + hits qs"
        by blast
      from t Inr x have "timed_calls E clf tx runs (lat, out) w = (Inr (lat2, out2), w2)"
        by simp
      from timed_calls_success [OF this] obtain ds0 where
        d: "lat2 = lat @ ds0" "length ds0 = runs"
        by blast
      have 1: "lat1 = lat @ (ds0 @ ds)" using r d by simp
      have 2: "length (ds0 @ ds) = length (s # rest) * runs" using r d by simp
      have 3: "ps1 = ps @ (q # qs)" using r by simp
      have 4: "map sample_of (q # qs) = s # rest" using r s by (simp add: q_def sample_of_def)
      have 5: "c1 = c + hits (q # qs)" using r by (simp add: q_def c2_def hits_Cons)
      show ?thesis
        by (rule exI [of _ "ds0 @ ds"], rule exI [of _ "q # qs"], intro conjI 1 2 3 4 5)
    qed
  qed
qed

section \<open>The instrumented library\<close>

lemma traced_simps [simp]:
  "pipeline (traced E) m (w, tr) = (case pipeline E m w of (r, w1) \<Rightarrow> (r, (w1, tr @ [Built m])))"
  "classify (traced E) clf text (w, tr) =
     (case classify E clf text w of (r, w1) \<Rightarrow> (r, (w1, tr @ [Called text])))"
  "perf_counter (traced E) (w, tr) = (case perf_counter E w of (t, w1) \<Rightarrow> (t, (w1, tr @ [Clock])))"
  by (simp_all add: traced_def)

lemma traced_timed_calls:
  "timed_calls (traced E) clf text n st (w, tr) = (r, (w1, tr1)) \<Longrightarrow>
     timed_calls E clf text n st w = (r, w1)
     \<and> (case r of Inl e \<Rightarrow> True
         | Inr x \<Rightarrow> tr1 = tr @ concat (replicate n [Clock, Called text, Clock]))"
proof (induction n arbitrary: st w tr)
  case 0
  then show ?case by (cases st) auto
next
  case (Suc n)
  obtain lat out where st: "st = (lat, out)" by (cases st)
  obtain t0 w2 where c0: "perf_counter E w = (t0, w2)" by (cases "perf_counter E w")
  obtain p w3 where c1: "classify E clf text w2 = (p, w3)" by (cases "classify E clf text w2")
  obtain t1 w4 where c2: "perf_counter E w3 = (t1, w4)" by (cases "perf_counter E w3")
  show ?case
  proof (cases p)
    case (Inl e)
    with Suc.prems st c0 c1 show ?thesis by auto
  next
    case (Inr x)
    with Suc.prems st c0 c1 c2
    have "timed_calls (traced E) clf text n (lat @ [(t1 - t0) * 1000], Some x)
            (w4, tr @ [Clock, Called text, Clock]) = (r, (w1, tr1))"
      by simp
    from Suc.IH [OF this] show ?thesis
      using st c0 c1 c2 Inr by (auto split: sum.splits)
  qed
qed

lemma traced_sample_loop:
  "sample_loop (traced E) clf runs samples st (w, tr) = (r, (w1, tr1)) \<Longrightarrow>
     sample_loop E clf runs samples st w = (r, w1)
     \<and> (case r of Inl e \<Rightarrow> True | Inr x \<Rightarrow> tr1 = tr @ timed_trace runs samples)"
proof (induction samples arbitrary: st w tr)
  case Nil
  then show ?case by (auto simp: timed_trace_def)
next
  case (Cons s rest)
  obtain tx expected where s: "s = (tx, expected)" by (cases s)
  obtain lat c ps out where st: "st = (lat, c, ps, out)" by (cases st)
  obtain q w2 tr2 where t: "timed_calls (traced E) clf tx runs (lat, out) (w, tr) = (q, (w2, tr2))"
    by (cases "timed_calls (traced E) clf tx runs (lat, out) (w, tr)") auto
  from traced_timed_calls [OF t]
  have u: "timed_calls E clf tx runs (lat, out) w = (q, w2)"
    and v: "case q of Inl e \<Rightarrow> True
            | Inr x \<Rightarrow> tr2 = tr @ concat (replicate runs [Clock, Called tx, Clock])"
    by simp_all
  show ?case
  proof (cases q)
    case (Inl e)
    with Cons.prems s st t u show ?thesis by auto
  next
    case (Inr x)
    obtain lat2 out2 where x: "x = (lat2, out2)" by (cases x)
    show ?thesis
    proof (cases out2)
      case None
      with Cons.prems s st t u Inr x show ?thesis by auto
    next
      case (Some p)
      define st2 where "st2 = (lat2, (if normalize_label (label p) = expected then c + 1 else c),
          ps @ [(tx, expected, normalize_label (label p), score p)], out2)"
      have "sample_loop (traced E) clf runs rest st2 (w2, tr2) = (r, (w1, tr1))"
        using Cons.prems s st t Inr x Some by (simp add: Let_def st2_def)
      from Cons.IH [OF this]
      have a: "sample_loop E clf runs rest st2 w2 = (r, w1)"
        and b: "case r of Inl e \<Rightarrow> True | Inr y \<Rightarrow> tr1 = tr2 @ timed_trace runs rest"
        by simp_all
      have "sample_loop E clf runs (s # rest) st w = (r, w1)"
        using a s st u Inr x Some by (simp add: Let_def st2_def)
      moreover have "case r of Inl e \<Rightarrow> True | Inr y \<Rightarrow> tr1 = tr @ timed_trace runs (s # rest)"
        using b v Inr s by (cases r) (simp_all add: timed_trace_def)
      ultimately show ?thesis by simp
    qed
  qed
qed

lemma traced_run_one_collect:
  "run_one_collect (traced E) samples runs m (w, tr) = (r, (w1, tr1)) \<Longrightarrow>
     run_one_collect E samples runs m w = (r, w1)
     \<and> (case r of Inl e \<Rightarrow> True
         | Inr x \<Rightarrow> tr1 = tr @ Built m # Called ''warmup'' # timed_trace runs samples)"
proof -
  assume a: "run_one_collect (traced E) samples runs m (w, tr) = (r, (w1, tr1))"
  obtain p w2 where c0: "pipeline E m w = (p, w2)" by (cases "pipeline E m w")
  show ?thesis
  proof (cases p)
    case (Inl e)
    with a c0 show ?thesis by (auto simp: run_one_collect_def)
  next
    case (Inr clf)
    obtain q w3 where c1: "classify E clf ''warmup'' w2 = (q, w3)"
      by (cases "classify E clf ''warmup'' w2")
    show ?thesis
    proof (cases q)
      case (Inl e)
      with a c0 c1 \<open>p = Inr clf\<close> show ?thesis by (auto simp: run_one_collect_def)
    next
      case (Inr x)
      with a c0 c1 \<open>p = Inr clf\<close>
      have "sample_loop (traced E) clf runs samples ([], 0, [], None)
              (w3, tr @ [Built m, Called ''warmup'']) = (r, (w1, tr1))"
        by (simp add: run_one_collect_def)
      from traced_sample_loop [OF this] show ?thesis
        using c0 c1 Inr \<open>p = Inr clf\<close> by (auto simp: run_one_collect_def split: sum.splits)
    qed
  qed
qed

section \<open>Properties of one evaluation\<close>

lemma calls_of_timed_trace:
  "length (filter is_call (timed_trace runs samples)) = length samples * runs"
proof (induction samples)
  case Nil
  show ?case by (simp add: timed_trace_def)
next
  case (Cons s rest)
  have "length (filter is_call (concat (replicate runs [Clock, Called t, Clock]))) = runs" for t
    by (induction runs) simp_all
  then show ?case using Cons by (cases s) (simp add: timed_trace_def)
qed

lemma run_one_collect_success:
  assumes "run_one_collect E samples runs m w = (Inr (lat, c, ps, out), w1)"
  shows "length lat = length samples * runs" and "map sample_of ps = samples" and "c = hits ps"
proof -
  obtain clf w2 w3 where
    "sample_loop E clf runs samples ([], 0, [], None) w3 = (Inr (lat, c, ps, out), w1)"
    using assms by (auto simp: run_one_collect_def split: prod.splits sum.splits)
  from sample_loop_success [OF this]
  show "length lat = length samples * runs" and "map sample_of ps = samples" and "c = hits ps"
    by auto
qed

lemma run_one_on_success:
  assumes "run_one_on E samples runs m w = (Inr res, w1)"
  shows "\<exists>lat c out. run_one_collect E samples runs m w = (Inr (lat, c, preds res, out), w1)
           \<and> acc res = real c / real (length samples) \<and> num_samples res = length samples"
  using assms
  by (auto simp: run_one_on_def run_one_metrics_def Let_def split: prod.splits sum.splits if_splits)

text \<open>
  Claim C6. For every sample, the prediction that is scored and recorded is the output
  of the last of the repeated calls: when the first \<open>n\<close> calls on the text return and
  the call after them returns \<open>r\<close>, the loop goes on with the normalized label and the
  score of \<open>r\<close> recorded for the sample and counted as correct when that label is the
  expected one. The outputs of the earlier calls do not occur in the state; the earlier
  calls leave their durations only.
\<close>

theorem last_call_scored:
  assumes "timed_calls E clf text n (lat, out) w = (Inr (lat1, out1), w1)"
    and "perf_counter E w1 = (t0, w2)"
    and "classify E clf text w2 = (Inr r, w3)"
    and "perf_counter E w3 = (t1, w4)"
  shows "sample_loop E clf (Suc n) ((text, expected) # rest) (lat, correct, ps, out) w =
         sample_loop E clf (Suc n) rest
           (lat1 @ [(t1 - t0) * 1000],
            (if normalize_label (label r) = expected then correct + 1 else correct),
            ps @ [(text, expected, normalize_label (label r), score r)],
            Some r) w4"
proof -
  have "timed_calls E clf text (Suc n) (lat, out) w
        = timed_calls E clf text (Suc 0) (lat1, out1) w1"
    using assms(1) by (subst timed_calls_snoc) simp
  also have "\<dots> = (Inr (lat1 @ [(t1 - t0) * 1000], Some r), w4)"
    using assms(2-4) by simp
  finally show ?thesis by (simp add: Let_def)
qed

theorem last_call_scored_witness:
  "sample_loop demo_env ''m'' (Suc 2) [(''good'', ''positive'')] ([], 0, [], None) 0
     = (Inr ([1000, 1000, 1000], 1, [(''good'', ''positive'', ''positive'', 1 / 2)],
             Some \<lparr>label = Some ''POSITIVE'', score = 1 / 2\<rparr>), 6)"
proof -
  have h1: "timed_calls demo_env ''m'' ''good'' 2 ([], None) 0
              = (Inr ([1000, 1000], Some \<lparr>label = Some ''NEGATIVE'', score = 1 / 2\<rparr>), 4)"
    by code_simp
  have h2: "perf_counter demo_env 4 = (4, 5)" by code_simp
  have h3: "classify demo_env ''m'' ''good'' 5
              = (Inr \<lparr>label = Some ''POSITIVE'', score = 1 / 2\<rparr>, 5)"
    by code_simp
  have h4: "perf_counter demo_env 5 = (5, 6)" by code_simp
  have n: "normalize_label (Some ''POSITIVE'') = ''positive''"
    by (simp add: normalize_label_def string_eval)
  have "sample_loop demo_env ''m'' (Suc 2) ((''good'', ''positive'') # []) ([], 0, [], None) 0
        = sample_loop demo_env ''m'' (Suc 2) []
            ([1000, 1000] @ [(5 - 4) * 1000],
             (if normalize_label (label \<lparr>label = Some ''POSITIVE'', score = 1 / 2\<rparr>) = ''positive''
              then 0 + 1 else 0),
             [] @ [(''good'', ''positive'',
                    normalize_label (label \<lparr>label = Some ''POSITIVE'', score = 1 / 2\<rparr>),
                    score \<lparr>label = Some ''POSITIVE'', score = 1 / 2\<rparr>)],
             Some \<lparr>label = Some ''POSITIVE'', score = 1 / 2\<rparr>) 6"
    by (rule last_call_scored [OF h1 h2 h3 h4])
  then show ?thesis by (simp add: n)
qed

text \<open>
  Claim C7. When the evaluation of a model gets through its loops, the latency sequence
  has one entry per sample and run, \<open>num_samples * runs_per_sample\<close> in all, which is
  24 for the 8 samples and 3 runs of the module. The warm-up call adds none: the run makes
  one inference call more than it records durations, and reads the clock twice per
  recorded duration.
\<close>

theorem latency_count:
  "(run_one_collect E samples runs model_name w = (Inr (lat, c, ps, out), w1)
      \<longrightarrow> length lat = length samples * runs)
   \<and> (run_one_collect (traced E) samples runs model_name (w, []) = (Inr (lat, c, ps, out), (w1, tr))
      \<longrightarrow> length (filter is_call tr) = Suc (length lat)
          \<and> length (filter (\<lambda>ev. ev = Clock) tr) = 2 * length lat)
   \<and> length SAMPLES * RUNS_PER_SAMPLE = 24"
proof (intro conjI impI)
  assume "run_one_collect E samples runs model_name w = (Inr (lat, c, ps, out), w1)"
  then show "length lat = length samples * runs" by (rule run_one_collect_success)
next
  assume a: "run_one_collect (traced E) samples runs model_name (w, []) = (Inr (lat, c, ps, out), (w1, tr))"
  then have n: "length lat = length samples * runs" by (rule run_one_collect_success)
  from traced_run_one_collect [OF a]
  have t: "tr = Built model_name # Called ''warmup'' # timed_trace runs samples" by simp
  show "length (filter is_call tr) = Suc (length lat)"
    by (simp add: t n calls_of_timed_trace)
  have "length (filter (\<lambda>ev. ev = Clock) (timed_trace runs ss)) = 2 * (length ss * runs)" for ss
  proof (induction ss)
    case Nil
    show ?case by (simp add: timed_trace_def)
  next
    case (Cons s rest)
    have "length (filter (\<lambda>ev. ev = Clock) (concat (replicate runs [Clock, Called t, Clock])))
          = 2 * runs" for t
      by (induction runs) simp_all
    then show ?case using Cons by (cases s) (simp add: timed_trace_def)
  qed
  then show "length (filter (\<lambda>ev. ev = Clock) tr) = 2 * length lat" by (simp add: t n)
next
  show "length SAMPLES * RUNS_PER_SAMPLE = 24" by (simp add: SAMPLES_def RUNS_PER_SAMPLE_def)
qed

theorem latency_count_witness:
  "run_one_collect demo_env [(''a'', ''positive''), (''b'', ''negative'')] 3 ''other'' 0
     = (Inr ([1000, 1000, 1000, 1000, 1000, 1000], 1,
             [(''a'', ''positive'', ''positive'', 1 / 2), (''b'', ''negative'', ''positive'', 1 / 2)],
             Some \<lparr>label = Some ''POSITIVE'', score = 1 / 2\<rparr>), 12)
   \<and> length [1000, 1000, 1000, 1000, 1000, 1000 :: real] = 2 * 3
   \<and> run_one_collect (traced demo_env) [(''a'', ''positive''), (''b'', ''negative'')] 3 ''other'' (0, [])
     = (Inr ([1000, 1000, 1000, 1000, 1000, 1000], 1,
             [(''a'', ''positive'', ''positive'', 1 / 2), (''b'', ''negative'', ''positive'', 1 / 2)],
             Some \<lparr>label = Some ''POSITIVE'', score = 1 / 2\<rparr>),
        (12, Built ''other'' # Called ''warmup''
               # timed_trace 3 [(''a'', ''positive''), (''b'', ''negative'')]))
   \<and> length (filter is_call (Built ''other'' # Called ''warmup''
               # timed_trace 3 [(''a'', ''positive''), (''b'', ''negative'')])) = 7"
proof -
  have h1: "run_one_collect demo_env [(''a'', ''positive''), (''b'', ''negative'')] 3 ''other'' 0
     = (Inr ([1000, 1000, 1000, 1000, 1000, 1000], 1,
             [(''a'', ''positive'', ''positive'', 1 / 2), (''b'', ''negative'', ''positive'', 1 / 2)],
             Some \<lparr>label = Some ''POSITIVE'', score = 1 / 2\<rparr>), 12)"
    by code_simp
  have h2: "run_one_collect (traced demo_env) [(''a'', ''positive''), (''b'', ''negative'')] 3 ''other'' (0, [])
     = (Inr ([1000, 1000, 1000, 1000, 1000, 1000], 1,
             [(''a'', ''positive'', ''positive'', 1 / 2), (''b'', ''negative'', ''positive'', 1 / 2)],
             Some \<lparr>label = Some ''POSITIVE'', score = 1 / 2\<rparr>),
        (12, Built ''other'' # Called ''warmup''
               # timed_trace 3 [(''a'', ''positive''), (''b'', ''negative'')]))"
    by code_simp
  from latency_count [THEN conjunct1, rule_format, OF h1]
  have a: "length [1000, 1000, 1000, 1000, 1000, 1000 :: real] = 2 * 3" by simp
  from latency_count [THEN conjunct2, THEN conjunct1, rule_format, OF h2]
  have b: "length (filter is_call (Built ''other'' # Called ''warmup''
               # timed_trace 3 [(''a'', ''positive''), (''b'', ''negative'')])) = 7" by simp
  from h1 a h2 b show ?thesis by (intro conjI)
qed

text \<open>
  Claim C8. The prediction list of every model result has exactly one entry per sample,
  in the order of the samples.
\<close>

theorem preds_per_sample:
  "run_one_on E samples runs model_name w = (Inr res, w1)
     \<longrightarrow> map sample_of (preds res) = samples \<and> length (preds res) = length samples"
proof
  assume "run_one_on E samples runs model_name w = (Inr res, w1)"
  from run_one_on_success [OF this] obtain lat c out where
    "run_one_collect E samples runs model_name w = (Inr (lat, c, preds res, out), w1)" by blast
  then have m: "map sample_of (preds res) = samples" by (rule run_one_collect_success)
  then have "length (map sample_of (preds res)) = length samples" by simp
  then have "length (preds res) = length samples" by simp
  with m show "map sample_of (preds res) = samples \<and> length (preds res) = length samples" ..
qed

theorem preds_per_sample_witness:
  "run_one_on demo_env [(''a'', ''positive''), (''b'', ''negative'')] 3 ''other'' 0
     = (Inr (demo_result (1 / 2)
          [(''a'', ''positive'', ''positive'', 1 / 2), (''b'', ''negative'', ''positive'', 1 / 2)]), 12)
   \<and> map sample_of (preds (demo_result (1 / 2)
          [(''a'', ''positive'', ''positive'', 1 / 2), (''b'', ''negative'', ''positive'', 1 / 2)]))
     = [(''a'', ''positive''), (''b'', ''negative'')]"
proof -
  have h: "run_one_on demo_env [(''a'', ''positive''), (''b'', ''negative'')] 3 ''other'' 0
     = (Inr (demo_result (1 / 2)
          [(''a'', ''positive'', ''positive'', 1 / 2), (''b'', ''negative'', ''positive'', 1 / 2)]), 12)"
    by code_simp
  from preds_per_sample [rule_format, OF h] h show ?thesis by simp
qed

text \<open>
  Claim C9. The accuracy of a model result is the number of its predictions whose
  normalized label is the expected one, divided by the number of samples; on the 8
  samples of the module, 8 correct predictions give 1 and 4 give one half.
\<close>

theorem accuracy_ratio:
  "(run_one_on E samples runs model_name w = (Inr res, w1)
      \<longrightarrow> acc res = real (hits (preds res)) / real (length samples)
          \<and> hits (preds res) \<le> length samples \<and> 0 < length samples)
   \<and> (run_one E model_name w = (Inr res, w1) \<and> hits (preds res) = 8 \<longrightarrow> acc res = 1)
   \<and> (run_one E model_name w = (Inr res, w1) \<and> hits (preds res) = 4 \<longrightarrow> acc res = 1 / 2)"
proof -
  have g: "acc r = real (hits (preds r)) / real (length ss)
             \<and> hits (preds r) \<le> length ss \<and> 0 < length ss"
    if a: "run_one_on E ss k model_name w = (Inr r, w1)" for ss k r
  proof -
    from run_one_on_success [OF a] obtain lat c out where
      x: "run_one_collect E ss k model_name w = (Inr (lat, c, preds r, out), w1)"
      and y: "acc r = real c / real (length ss)" by blast
    from x have c: "c = hits (preds r)" and m: "map sample_of (preds r) = ss"
      by (rule run_one_collect_success)+
    have "length (map sample_of (preds r)) = length ss" using m by simp
    then have l: "length (preds r) = length ss" by simp
    have "hits (preds r) \<le> length (preds r)" by (simp add: hits_def)
    moreover have "0 < length ss"
      using a by (auto simp: run_one_on_def run_one_metrics_def Let_def
          split: prod.splits sum.splits if_splits)
    ultimately show ?thesis using y c l by simp
  qed
  have n: "length SAMPLES = 8" by (simp add: SAMPLES_def)
  show ?thesis
  proof (intro conjI impI)
    assume "run_one_on E samples runs model_name w = (Inr res, w1)"
    from g [OF this] show "acc res = real (hits (preds res)) / real (length samples)"
      and "hits (preds res) \<le> length samples" and "0 < length samples" by simp_all
  next
    assume "run_one E model_name w = (Inr res, w1) \<and> hits (preds res) = 8"
    then have "run_one_on E SAMPLES RUNS_PER_SAMPLE model_name w = (Inr res, w1)"
      and h: "hits (preds res) = 8" by (simp_all add: run_one_def)
    from g [OF this(1)] h n show "acc res = 1" by simp
  next
    assume "run_one E model_name w = (Inr res, w1) \<and> hits (preds res) = 4"
    then have "run_one_on E SAMPLES RUNS_PER_SAMPLE model_name w = (Inr res, w1)"
      and h: "hits (preds res) = 4" by (simp_all add: run_one_def)
    from g [OF this(1)] h n show "acc res = 1 / 2" by simp
  qed
qed

theorem accuracy_ratio_witness:
  "run_one demo_env ''echo'' 0
     = (Inr (demo_result 1 (map (\<lambda>(t, e). (t, e, e, 1)) SAMPLES)), 48)
   \<and> hits (map (\<lambda>(t, e). (t, e, e, 1)) SAMPLES) = 8
   \<and> acc (demo_result 1 (map (\<lambda>(t, e). (t, e, e, 1)) SAMPLES)) = 1
   \<and> run_one demo_env ''other'' 0
     = (Inr (demo_result (1 / 2) (map (\<lambda>(t, e). (t, e, ''positive'', 1 / 2)) SAMPLES)), 48)
   \<and> hits (map (\<lambda>(t, e). (t, e, ''positive'', 1 / 2)) SAMPLES) = 4
   \<and> acc (demo_result (1 / 2) (map (\<lambda>(t, e). (t, e, ''positive'', 1 / 2)) SAMPLES)) = 1 / 2"
proof -
  have h1: "run_one demo_env ''echo'' 0
     = (Inr (demo_result 1 (map (\<lambda>(t, e). (t, e, e, 1)) SAMPLES)), 48)"
    by code_simp
  have k1: "hits (preds (demo_result 1 (map (\<lambda>(t, e). (t, e, e, 1)) SAMPLES))) = 8"
    by code_simp
  have h2: "run_one demo_env ''other'' 0
     = (Inr (demo_result (1 / 2) (map (\<lambda>(t, e). (t, e, ''positive'', 1 / 2)) SAMPLES)), 48)"
    by code_simp
  have k2: "hits (preds (demo_result (1 / 2) (map (\<lambda>(t, e). (t, e, ''positive'', 1 / 2)) SAMPLES))) = 4"
    by code_simp
  have p: "preds (demo_result a ps) = ps" for a ps by (simp add: demo_result_def)
  from accuracy_ratio [THEN conjunct2, THEN conjunct1, rule_format, OF conjI, OF h1 k1]
  have a1: "acc (demo_result 1 (map (\<lambda>(t, e). (t, e, e, 1)) SAMPLES)) = 1" .
  from accuracy_ratio [THEN conjunct2, THEN conjunct2, rule_format, OF conjI, OF h2 k2]
  have a2: "acc (demo_result (1 / 2) (map (\<lambda>(t, e). (t, e, ''positive'', 1 / 2)) SAMPLES)) = 1 / 2" .
  from h1 k1 a1 h2 k2 a2 show ?thesis by (simp only: p simp_thms)
qed

section \<open>Properties of the run over all models\<close>

lemma models_loop_outcomes:
  "fst (models_loop E samples runs ms (all_results, printed) w) =
     (all_results @ successes (outcomes E samples runs ms w),
      printed @ concat (map (\<lambda>((model_id, pretty), r).
          case r of Inl e \<Rightarrow> [Loading model_id, Failed model_id e] | Inr res \<Rightarrow> [Loading model_id])
        (outcomes E samples runs ms w)))"
proof (induction ms arbitrary: all_results printed w)
  case Nil
  show ?case by simp
next
  case (Cons m rest)
  obtain model_id pretty where m: "m = (model_id, pretty)" by (cases m)
  obtain r w1 where r: "run_one_on E samples runs model_id w = (r, w1)"
    by (cases "run_one_on E samples runs model_id w")
  show ?case
  proof (cases r)
    case (Inl e)
    then show ?thesis using m r Cons.IH [of all_results "printed @ [Loading model_id, Failed model_id e]" w1]
      by simp
  next
    case (Inr res)
    then show ?thesis
      using m r Cons.IH [of "all_results @ [(model_id, pretty, res)]" "printed @ [Loading model_id]" w1]
      by simp
  qed
qed

lemma outcomes_models: "map fst (outcomes E samples runs ms w) = ms"
proof (induction ms arbitrary: w)
  case Nil
  show ?case by simp
next
  case (Cons m rest)
  then show ?case by (cases m) (simp split: prod.splits)
qed

lemma outcomes_count: "length (successes os) + length (failures os) = length os"
  by (induction os rule: successes.induct) simp_all

lemma filter_log:
  "filter is_summary_row (concat (map (\<lambda>((model_id, pretty), r).
          case r of Inl e \<Rightarrow> [Loading model_id, Failed model_id e] | Inr res \<Rightarrow> [Loading model_id]) os)) = []"
  "filter is_detail_row (concat (map (\<lambda>((model_id, pretty), r).
          case r of Inl e \<Rightarrow> [Loading model_id, Failed model_id e] | Inr res \<Rightarrow> [Loading model_id]) os)) = []"
  "filter is_failed (concat (map (\<lambda>((model_id, pretty), r).
          case r of Inl e \<Rightarrow> [Loading model_id, Failed model_id e] | Inr res \<Rightarrow> [Loading model_id]) os))
     = failures os"
  by (induction os rule: successes.induct) simp_all

lemma filter_summary_rows:
  "filter is_summary_row (map summary_row rs) = map summary_row rs"
  "filter is_detail_row (map summary_row rs) = []"
  "filter is_failed (map summary_row rs) = []"
  by (induction rs) (auto simp: summary_row_def)

lemma filter_detail_rows:
  "filter is_summary_row (concat (map detail_rows rs)) = []"
  "filter is_detail_row (concat (map detail_rows rs)) = concat (map detail_rows rs)"
  "filter is_failed (concat (map detail_rows rs)) = []"
  by (induction rs) (auto simp: detail_rows_def filter_empty_conv filter_id_conv)

lemma main_on_report:
  "fst (main_on E models samples runs w) =
     concat (map (\<lambda>((model_id, pretty), r).
          case r of Inl e \<Rightarrow> [Loading model_id, Failed model_id e] | Inr res \<Rightarrow> [Loading model_id])
        (outcomes E samples runs models w))
     @ [Title, Config (length samples) runs, SummaryHeader]
     @ map summary_row (successes (outcomes E samples runs models w))
     @ [DetailsOpen, DetailHeader]
     @ concat (map detail_rows (successes (outcomes E samples runs models w)))
     @ [DetailsClose]"
proof -
  obtain rs pr w1 where m: "models_loop E samples runs models ([], []) w = ((rs, pr), w1)"
    by (cases "models_loop E samples runs models ([], []) w") auto
  have "fst (models_loop E samples runs models ([], []) w) = (rs, pr)" using m by simp
  then have "rs = successes (outcomes E samples runs models w)"
    and "pr = concat (map (\<lambda>((model_id, pretty), r).
          case r of Inl e \<Rightarrow> [Loading model_id, Failed model_id e] | Inr res \<Rightarrow> [Loading model_id])
        (outcomes E samples runs models w))"
    by (simp_all add: models_loop_outcomes)
  then show ?thesis using m by (simp add: main_on_def)
qed

lemma main_on_rows:
  "filter is_summary_row (fst (main_on E models samples runs w))
     = map summary_row (successes (outcomes E samples runs models w))"
  "filter is_detail_row (fst (main_on E models samples runs w))
     = concat (map detail_rows (successes (outcomes E samples runs models w)))"
  "filter is_failed (fst (main_on E models samples runs w))
     = failures (outcomes E samples runs models w)"
  by (simp_all add: main_on_report filter_log filter_summary_rows filter_detail_rows)

text \<open>
  Claim C2. The run returns a report whatever the evaluations raise, and evaluates every
  model in turn. The summary table has exactly the rows of the models whose evaluation
  returned, one each and in their order; the detail table has the rows of the same
  models only; and each model whose evaluation raised has one failure line, with its
  identifier and the error. In particular, when one of two models raises and the other
  returns, before or after it, the summary table is the one row of the model that
  returned.
\<close>

theorem failure_isolation:
  "map fst (outcomes E samples runs models w) = models
   \<and> filter is_summary_row (fst (main_on E models samples runs w))
       = map summary_row (successes (outcomes E samples runs models w))
   \<and> filter is_detail_row (fst (main_on E models samples runs w))
       = concat (map detail_rows (successes (outcomes E samples runs models w)))
   \<and> filter is_failed (fst (main_on E models samples runs w))
       = failures (outcomes E samples runs models w)
   \<and> length (successes (outcomes E samples runs models w))
       + length (failures (outcomes E samples runs models w)) = length models
   \<and> filter is_summary_row (fst (main E w))
       = map summary_row (successes (outcomes E SAMPLES RUNS_PER_SAMPLE MODELS w))
   \<and> (run_one_on E samples runs a w = (Inr res, w1) \<and> run_one_on E samples runs b w1 = (Inl e, w2)
        \<longrightarrow> filter is_summary_row (fst (main_on E [(a, pa), (b, pb)] samples runs w))
              = [summary_row (a, pa, res)]
            \<and> filter is_detail_row (fst (main_on E [(a, pa), (b, pb)] samples runs w))
              = detail_rows (a, pa, res)
            \<and> filter is_failed (fst (main_on E [(a, pa), (b, pb)] samples runs w))
              = [Failed b e])
   \<and> (run_one_on E samples runs b w = (Inl e, w1) \<and> run_one_on E samples runs a w1 = (Inr res, w2)
        \<longrightarrow> filter is_summary_row (fst (main_on E [(b, pb), (a, pa)] samples runs w))
              = [summary_row (a, pa, res)]
            \<and> filter is_failed (fst (main_on E [(b, pb), (a, pa)] samples runs w))
              = [Failed b e])"
proof (intro conjI impI)
  show "map fst (outcomes E samples runs models w) = models" by (rule outcomes_models)
  show "filter is_summary_row (fst (main_on E models samples runs w))
       = map summary_row (successes (outcomes E samples runs models w))"
    by (rule main_on_rows)
  show "filter is_detail_row (fst (main_on E models samples runs w))
       = concat (map detail_rows (successes (outcomes E samples runs models w)))"
    by (rule main_on_rows)
  show "filter is_failed (fst (main_on E models samples runs w))
       = failures (outcomes E samples runs models w)"
    by (rule main_on_rows)
  have "length (outcomes E samples runs models w) = length (map fst (outcomes E samples runs models w))"
    by simp
  then show "length (successes (outcomes E samples runs models w))
       + length (failures (outcomes E samples runs models w)) = length models"
    by (simp only: outcomes_count outcomes_models)
  show "filter is_summary_row (fst (main E w))
       = map summary_row (successes (outcomes E SAMPLES RUNS_PER_SAMPLE MODELS w))"
    by (simp only: main_def main_on_rows)
next
  assume h: "run_one_on E samples runs a w = (Inr res, w1) \<and> run_one_on E samples runs b w1 = (Inl e, w2)"
  then have o: "outcomes E samples runs [(a, pa), (b, pb)] w = [((a, pa), Inr res), ((b, pb), Inl e)]"
    by simp
  show "filter is_summary_row (fst (main_on E [(a, pa), (b, pb)] samples runs w))
              = [summary_row (a, pa, res)]"
    by (simp only: main_on_rows o) simp
  show "filter is_detail_row (fst (main_on E [(a, pa), (b, pb)] samples runs w))
              = detail_rows (a, pa, res)"
    by (simp only: main_on_rows o) simp
  show "filter is_failed (fst (main_on E [(a, pa), (b, pb)] samples runs w)) = [Failed b e]"
    by (simp only: main_on_rows o) simp
next
  assume h: "run_one_on E samples runs b w = (Inl e, w1) \<and> run_one_on E samples runs a w1 = (Inr res, w2)"
  then have o: "outcomes E samples runs [(b, pb), (a, pa)] w = [((b, pb), Inl e), ((a, pa), Inr res)]"
    by simp
  show "filter is_summary_row (fst (main_on E [(b, pb), (a, pa)] samples runs w))
              = [summary_row (a, pa, res)]"
    by (simp only: main_on_rows o) simp
  show "filter is_failed (fst (main_on E [(b, pb), (a, pa)] samples runs w)) = [Failed b e]"
    by (simp only: main_on_rows o) simp
qed

theorem failure_isolation_witness:
  "run_one_on demo_env [(''a'', ''positive'')] 3 ''other'' 0
     = (Inr (demo_result 1 [(''a'', ''positive'', ''positive'', 1 / 2)]), 6)
   \<and> run_one_on demo_env [(''a'', ''positive'')] 3 ''broken'' 6 = (Inl (Raised ''cannot load''), 6)
   \<and> filter is_summary_row
        (fst (main_on demo_env [(''other'', ''Other''), (''broken'', ''Broken'')] [(''a'', ''positive'')] 3 0))
     = [SummaryRow ''Other'' 1000 1000 1000 1000 1000 100]
   \<and> filter is_failed
        (fst (main_on demo_env [(''other'', ''Other''), (''broken'', ''Broken'')] [(''a'', ''positive'')] 3 0))
     = [Failed ''broken'' (Raised ''cannot load'')]
   \<and> filter is_summary_row
        (fst (main_on demo_env [(''broken'', ''Broken''), (''other'', ''Other'')] [(''a'', ''positive'')] 3 0))
     = [SummaryRow ''Other'' 1000 1000 1000 1000 1000 100]"
proof -
  have h1: "run_one_on demo_env [(''a'', ''positive'')] 3 ''other'' 0
     = (Inr (demo_result 1 [(''a'', ''positive'', ''positive'', 1 / 2)]), 6)"
    by code_simp
  have h2: "run_one_on demo_env [(''a'', ''positive'')] 3 ''broken'' 6 = (Inl (Raised ''cannot load''), 6)"
    by code_simp
  have h3: "run_one_on demo_env [(''a'', ''positive'')] 3 ''broken'' 0 = (Inl (Raised ''cannot load''), 0)"
    by code_simp
  have r: "summary_row (''other'', ''Other'', demo_result 1 [(''a'', ''positive'', ''positive'', 1 / 2)])
            = SummaryRow ''Other'' 1000 1000 1000 1000 1000 100"
    by (simp add: summary_row_def demo_result_def)
  note f = failure_isolation [of demo_env "[(''a'', ''positive'')]" 3 "[]" 0]
  from f [THEN conjunct2, THEN conjunct2, THEN conjunct2, THEN conjunct2, THEN conjunct2,
      THEN conjunct2, THEN conjunct1, rule_format, OF conjI, OF h1 h2, of "''Other''" "''Broken''"]
  have a: "filter is_summary_row
        (fst (main_on demo_env [(''other'', ''Other''), (''broken'', ''Broken'')] [(''a'', ''positive'')] 3 0))
     = [SummaryRow ''Other'' 1000 1000 1000 1000 1000 100]"
    and b: "filter is_failed
        (fst (main_on demo_env [(''other'', ''Other''), (''broken'', ''Broken'')] [(''a'', ''positive'')] 3 0))
     = [Failed ''broken'' (Raised ''cannot load'')]"
    by (simp_all only: r)
  from f [THEN conjunct2, THEN conjunct2, THEN conjunct2, THEN conjunct2, THEN conjunct2,
      THEN conjunct2, THEN conjunct2, rule_format, OF conjI, OF h3 h1, of "''Broken''" "''Other''"]
  have c: "filter is_summary_row
        (fst (main_on demo_env [(''broken'', ''Broken''), (''other'', ''Other'')] [(''a'', ''positive'')] 3 0))
     = [SummaryRow ''Other'' 1000 1000 1000 1000 1000 100]"
    by (simp only: r)
  from h1 h2 a b c show ?thesis by (intro conjI)
qed

section \<open>The warm-up call\<close>

text \<open>
  Claim C4, as stated, says that a failure of the warm-up call is swallowed. In the
  benchmark it is not: for a classifier that raises on the warm-up text only, whose
  timed calls would all return, the evaluation of the model raises, and the report has
  the failure line of the model and no row for it.
\<close>

theorem warmup_not_swallowed_counterexample:
  "fst (run_one demo_env ''cold'' 0) = Inl (Raised ''warm-up failed'')
   \<and> \<not> isl (fst (sample_loop demo_env ''cold'' RUNS_PER_SAMPLE SAMPLES ([], 0, [], None) 0))
   \<and> fst (main_on demo_env [(''cold'', ''Cold'')] SAMPLES RUNS_PER_SAMPLE 0)
       = [Loading ''cold'', Failed ''cold'' (Raised ''warm-up failed''), Title, Config 8 3,
          SummaryHeader, DetailsOpen, DetailHeader, DetailsClose]"
  by code_simp

text \<open>
  Claim C4, amended. An evaluation that gets through its loops has made, after building
  the classifier, exactly one warm-up call with no reading of the clock around it, and
  then the timed calls only. A warm-up call that raises ends the evaluation of its model
  before any timed call: \<open>run_one\<close> raises the same exception, and the loop of
  \<open>main\<close> prints the failure of the model, keeps it out of the results and goes on
  with the remaining models. The warm-up failure is dropped in place by the pipeline
  cache of the comparison table only, which returns and stores the classifier whatever
  the warm-up call does.
\<close>

theorem warmup_policy:
  "(run_one_collect (traced E) samples runs model_name (w, []) = (Inr st, (w1, tr))
      \<longrightarrow> run_one_collect E samples runs model_name w = (Inr st, w1)
          \<and> tr = Built model_name # Called ''warmup'' # timed_trace runs samples)
   \<and> (pipeline E model_name w = (Inr clf, w2) \<and> classify E clf ''warmup'' w2 = (Inl e, w3)
      \<longrightarrow> run_one_on E samples runs model_name w = (Inl e, w3)
          \<and> run_one_collect (traced E) samples runs model_name (w, [])
              = (Inl e, (w3, [Built model_name, Called ''warmup'']))
          \<and> models_loop E samples runs ((model_name, pretty) # rest) (all_results, printed) w
              = models_loop E samples runs rest
                  (all_results, printed @ [Loading model_name, Failed model_name e]) w3)
   \<and> (PIPELINES model_name = None \<and> pipeline E model_name w = (Inr clf, w2)
      \<longrightarrow> get_pipeline E model_name (PIPELINES, w)
            = (Inr clf, PIPELINES(model_name \<mapsto> clf), snd (classify E clf ''warmup'' w2)))"
proof (intro conjI impI)
  assume a: "run_one_collect (traced E) samples runs model_name (w, []) = (Inr st, (w1, tr))"
  from traced_run_one_collect [OF a]
  show "run_one_collect E samples runs model_name w = (Inr st, w1)"
    and "tr = Built model_name # Called ''warmup'' # timed_trace runs samples"
    by simp_all
next
  assume a: "pipeline E model_name w = (Inr clf, w2) \<and> classify E clf ''warmup'' w2 = (Inl e, w3)"
  then show r: "run_one_on E samples runs model_name w = (Inl e, w3)"
    by (simp add: run_one_on_def run_one_collect_def)
  show "run_one_collect (traced E) samples runs model_name (w, [])
          = (Inl e, (w3, [Built model_name, Called ''warmup'']))"
    using a by (simp add: run_one_collect_def)
  show "models_loop E samples runs ((model_name, pretty) # rest) (all_results, printed) w
          = models_loop E samples runs rest
              (all_results, printed @ [Loading model_name, Failed model_name e]) w3"
    using r by simp
next
  assume a: "PIPELINES model_name = None \<and> pipeline E model_name w = (Inr clf, w2)"
  then show "get_pipeline E model_name (PIPELINES, w)
            = (Inr clf, PIPELINES(model_name \<mapsto> clf), snd (classify E clf ''warmup'' w2))"
    by (simp add: get_pipeline_def split: prod.splits)
qed

theorem warmup_policy_witness:
  "run_one_collect (traced demo_env) [(''a'', ''positive'')] 2 ''other'' (0, [])
     = (Inr ([1000, 1000], 0, [(''a'', ''positive'', ''negative'', 1 / 2)],
             Some \<lparr>label = Some ''NEGATIVE'', score = 1 / 2\<rparr>),
        (4, [Built ''other'', Called ''warmup'', Clock, Called ''a'', Clock, Clock, Called ''a'', Clock]))
   \<and> run_one_on demo_env [(''a'', ''positive'')] 2 ''cold'' 0 = (Inl (Raised ''warm-up failed''), 0)
   \<and> run_one_collect (traced demo_env) [(''a'', ''positive'')] 2 ''cold'' (0, [])
     = (Inl (Raised ''warm-up failed''), (0, [Built ''cold'', Called ''warmup'']))
   \<and> fst (get_pipeline demo_env ''cold'' (Map.empty, 0)) = Inr ''cold''
   \<and> fst (snd (get_pipeline demo_env ''cold'' (Map.empty, 0))) ''cold'' = Some ''cold''"
proof -
  have h1: "run_one_collect (traced demo_env) [(''a'', ''positive'')] 2 ''other'' (0, [])
     = (Inr ([1000, 1000], 0, [(''a'', ''positive'', ''negative'', 1 / 2)],
             Some \<lparr>label = Some ''NEGATIVE'', score = 1 / 2\<rparr>),
        (4, [Built ''other'', Called ''warmup'', Clock, Called ''a'', Clock, Clock, Called ''a'', Clock]))"
    by code_simp
  have h2: "pipeline demo_env ''cold'' 0 = (Inr ''cold'', 0)" by (simp add: demo_env_def)
  have h3: "classify demo_env ''cold'' ''warmup'' 0 = (Inl (Raised ''warm-up failed''), 0)"
    by (simp add: demo_env_def)
  have h4: "(Map.empty :: string \<rightharpoonup> string) ''cold'' = None" by simp
  note p = warmup_policy [of demo_env "[(''a'', ''positive'')]" 2]
  from p [THEN conjunct1, rule_format, OF h1]
  have t: "[Built ''other'', Called ''warmup'', Clock, Called ''a'', Clock, Clock, Called ''a'', Clock]
            = Built ''other'' # Called ''warmup'' # timed_trace 2 [(''a'', ''positive'')]"
    by simp
  from p [THEN conjunct2, THEN conjunct1, rule_format, OF conjI, OF h2 h3]
  have a: "run_one_on demo_env [(''a'', ''positive'')] 2 ''cold'' 0 = (Inl (Raised ''warm-up failed''), 0)"
    and b: "run_one_collect (traced demo_env) [(''a'', ''positive'')] 2 ''cold'' (0, [])
     = (Inl (Raised ''warm-up failed''), (0, [Built ''cold'', Called ''warmup'']))"
    by simp_all
  from p [THEN conjunct2, THEN conjunct2, rule_format, OF conjI, OF h4 h2]
  have "get_pipeline demo_env ''cold'' (Map.empty, 0)
          = (Inr ''cold'', [''cold'' \<mapsto> ''cold''], snd (classify demo_env ''cold'' ''warmup'' 0))" .
  then have c: "fst (get_pipeline demo_env ''cold'' (Map.empty, 0)) = Inr ''cold''"
    and d: "fst (snd (get_pipeline demo_env ''cold'' (Map.empty, 0))) ''cold'' = Some ''cold''"
    by simp_all
  from h1 a b c d show ?thesis by (intro conjI)
qed

end
